theory Spec2Isabelle
  imports Main "HOL-Library.Char_ord" "HOL-Library.List_Lexorder"
begin

section \<open>The nodelet loader (\<open>src/nodelet/src/loader.cpp\<close>)\<close>

text \<open>
  The loader keeps a \<open>std::map\<close> from nodelet names to nodelet pointers, a plugin class
  loader that builds nodelets from a type name, a callback queue manager (the worker
  pool) and, when the ROS interface is requested, a \<open>LoaderROS\<close> object that serves the
  load, unload and list requests.

  Every member function of \<open>Loader\<close> that touches the map begins with
  \<open>boost::mutex::scoped_lock lock (lock_)\<close>, so that its body is one critical section.
  The functions below are the bodies, as state transformers on the \<open>loader_state\<close> record; the
  lock itself appears further down, where the calls of several threads are interleaved.

  What the loader does to its collaborators (the log, the plugin factory, a nodelet, a
  bond, the queue manager) is written to \<open>trace\<close>, in the order of the statements.
\<close>

subsection \<open>\<open>std::map\<close> with string keys\<close>

text \<open>
  A \<open>std::map\<close> keyed by \<open>std::string\<close> holds at most one entry for a key and is iterated in
  ascending key order; \<open>std::string\<close> compares bytes as unsigned values, a proper prefix
  being smaller, which is the order that \<open>Char_ord\<close> and \<open>List_Lexorder\<close> give to
  \<open>string\<close>. The map is the list of its entries in iteration order.
\<close>

type_synonym 'v std_map = "(string \<times> 'v) list"

text \<open>\<open>m.find(k)\<close>: the entry found, \<open>None\<close> for \<open>m.end()\<close>.\<close>

fun map_find :: "string \<Rightarrow> 'v std_map \<Rightarrow> 'v option" where
  "map_find k [] = None"
| "map_find k ((k', v) # m) = (if k' = k then Some v else map_find k m)"

text \<open>\<open>m.count(k)\<close>.\<close>

definition map_count :: "string \<Rightarrow> 'v std_map \<Rightarrow> nat" where
  "map_count k m = (case map_find k m of None \<Rightarrow> 0 | Some v \<Rightarrow> 1)"

text \<open>\<open>m[k] = v\<close>: the entry of \<open>k\<close> is overwritten, or a new one is put at its place in
  the key order.\<close>

fun map_assign :: "string \<Rightarrow> 'v \<Rightarrow> 'v std_map \<Rightarrow> 'v std_map" where
  "map_assign k v [] = [(k, v)]"
| "map_assign k v ((k', v') # m) =
     (if k = k' then (k, v) # m
      else if k < k' then (k, v) # (k', v') # m
      else (k', v') # map_assign k v m)"

text \<open>\<open>m.erase(it)\<close> for the iterator \<open>it = m.find(k)\<close>, when it is not \<open>m.end()\<close>.\<close>

fun map_erase :: "string \<Rightarrow> 'v std_map \<Rightarrow> 'v std_map" where
  "map_erase k [] = []"
| "map_erase k ((k', v) # m) = (if k' = k then m else (k', v) # map_erase k m)"

text \<open>The keys, in iteration order.\<close>

definition map_keys :: "'v std_map \<Rightarrow> string list" where
  "map_keys m = map fst m"

text \<open>What every \<open>std::map\<close> satisfies: the keys ascend strictly.\<close>

definition map_ok :: "'v std_map \<Rightarrow> bool" where
  "map_ok m = sorted_wrt (<) (map_keys m)"

type_synonym M_string = "string std_map"

subsection \<open>Collaborators\<close>

text \<open>
  \<open>pluginlib::PluginlibException\<close> carries a message (\<open>e.what()\<close>) and is the one
  exception that \<open>Loader::load\<close> catches. \<open>ros::names::resolve\<close> throws
  \<open>InvalidNameException\<close> on a malformed name.
\<close>

datatype exn = PluginlibException string | InvalidNameException | OtherException

text \<open>
  \<open>Nodelet::init\<close> is not part of this file: whether it returns or throws is a parameter,
  and it is all that the loader's control flow depends on in a nodelet, so this is what a
  nodelet object is here. The plugin factory decides it.
\<close>

record nodelet =
  init_throws :: "exn option"

text \<open>
  \<open>loader_->createClassInstance(type)\<close>: throws, or returns a pointer, which the code
  tests for null.
\<close>

type_synonym class_loader = "string \<Rightarrow> exn + nodelet option"

definition createClassInstance :: "class_loader \<Rightarrow> string \<Rightarrow> exn + nodelet option" where
  "createClassInstance cl type = cl type"

text \<open>A \<open>bond::Bond\<close>, by the two arguments of its constructor.\<close>

record bond =
  bond_topic :: string
  bond_id :: string

text \<open>
  Modelled from the spec: the code of \<open>CallbackQueueManager\<close> is not in this file. The
  worker pool manager owns the worker threads, their number given or left to its default,
  and its \<open>stop\<close> halts new dispatch and joins the workers: \<open>running\<close> says whether the
  workers run.
\<close>

record callback_queue_manager =
  num_threads :: "int option"
  running :: bool

text \<open>
  Of a \<open>ros::NodeHandle\<close>: its namespace, and what \<open>getParam\<close> reads for
  \<open>num_worker_threads\<close>, \<open>None\<close> when the parameter is not set.
\<close>

record node_handle =
  getNamespace :: string
  num_worker_threads :: "int option"

record loader_ros =
  nh :: node_handle

datatype log_level = DEBUG | INFO | ERROR

datatype queue_kind = ST | MT

text \<open>
  The calls that leave the loader, and its own writes to the map: a log macro with the text it
  prints; the three \<open>advertiseService\<close> calls and the start of the bond spinner in the
  constructor of \<open>LoaderROS\<close>; the reset of \<open>services_\<close>; the construction, \<open>stop\<close> and
  reset of the queue manager; \<open>nodelets_.clear()\<close>, with the names it releases; the call of
  the plugin factory; \<open>nodelets_[name] = p\<close>; the construction of a callback queue for
  the nodelet registered under a name; the call of its \<open>init\<close>, with the arguments; the call
  of its \<open>disable\<close>; \<open>nodelets_.erase\<close>; and the calls on a bond.
\<close>

datatype event =
    Log log_level string
  | AdvertiseService string
  | SpinnerStart
  | ServicesReset
  | ManagerNew "int option"
  | ManagerStop
  | ManagerReset
  | NodeletsClear "string list"
  | CreateClassInstance string
  | MapAssign string
  | QueueNew queue_kind string
  | Init string M_string "string list" "bond option"
  | Disable string
  | MapErase string
  | BondNew bond
  | BondSetCallbackQueue bond
  | BondSetBrokenCallback bond string
  | BondStart bond

subsection \<open>The loader\<close>

text \<open>
  The members \<open>nodelets_\<close>, \<open>loader_\<close>, \<open>callback_manager_\<close> and \<open>services_\<close> of
  \<open>Loader\<close>, without the trailing underscore, which a name cannot end with here.
\<close>

record loader_state =
  nodelets :: "nodelet std_map"
  loader :: class_loader
  callback_manager :: "callback_queue_manager option"
  services :: "loader_ros option"
  trace :: "event list"

definition emit :: "event \<Rightarrow> loader_state \<Rightarrow> loader_state" where
  "emit e s = s\<lparr>trace := trace s @ [e]\<rparr>"

text \<open>\<open>%s\<close> of \<open>x.c_str()\<close> prints the bytes before the first NUL.\<close>

definition c_str :: "string \<Rightarrow> string" where
  "c_str x = takeWhile (\<lambda>c. c \<noteq> CHR 0x00) x"

definition ROS_ERROR :: "string \<Rightarrow> loader_state \<Rightarrow> loader_state" where
  "ROS_ERROR msg = emit (Log ERROR msg)"

definition ROS_DEBUG :: "string \<Rightarrow> loader_state \<Rightarrow> loader_state" where
  "ROS_DEBUG msg = emit (Log DEBUG msg)"

definition ROS_INFO :: "string \<Rightarrow> loader_state \<Rightarrow> loader_state" where
  "ROS_INFO msg = emit (Log INFO msg)"

subsubsection \<open>\<open>Loader::load\<close>\<close>

text \<open>
  The \<open>try\<close> block, entered once the name has been found free. The pointer is stored in
  the map before the queues are made and before \<open>init\<close> runs. The handler catches
  \<open>PluginlibException\<close> only, from wherever in the block it comes, writes an error and
  lets the function return \<open>false\<close>; another exception leaves \<open>load\<close>. The constructor
  of \<open>CallbackQueue\<close>, the log macros and \<open>setBrokenCallback\<close> are taken to return.
\<close>

definition load_catch :: "string \<Rightarrow> string \<Rightarrow> exn \<Rightarrow> loader_state \<Rightarrow> (exn + bool) \<times> loader_state" where
  "load_catch name type e s =
     (case e of
        PluginlibException what \<Rightarrow>
          (Inr False,
           ROS_ERROR (''Failed to load nodelet ['' @ c_str name @ ''] of type ['' @ c_str type
                      @ '']: '' @ what) s)
      | InvalidNameException \<Rightarrow> (Inl InvalidNameException, s)
      | OtherException \<Rightarrow> (Inl OtherException, s))"

definition load_try ::
  "string \<Rightarrow> string \<Rightarrow> M_string \<Rightarrow> string list \<Rightarrow> bond option \<Rightarrow> loader_state
     \<Rightarrow> (exn + bool) \<times> loader_state" where
  "load_try name type remappings my_argv bond s =
     (let s1 = emit (CreateClassInstance type) s in
      case createClassInstance (loader s1) type of
        Inl e \<Rightarrow> load_catch name type e s1
      | Inr None \<Rightarrow> (Inr False, s1)
      | Inr (Some p) \<Rightarrow>
          (let s2 = emit (MapAssign name) (s1\<lparr>nodelets := map_assign name p (nodelets s1)\<rparr>);
               s3 = ROS_DEBUG (''Done loading nodelet '' @ c_str name) s2;
               s4 = emit (QueueNew ST name) s3;
               s5 = emit (QueueNew MT name) s4;
               s6 = emit (Init name remappings my_argv bond) s5
           in case init_throws p of
                Some e \<Rightarrow> load_catch name type e s6
              | None \<Rightarrow>
                  (let s7 = (case bond of
                               None \<Rightarrow> s6
                             | Some b \<Rightarrow> emit (BondSetBrokenCallback b name) s6);
                       s8 = ROS_DEBUG (''Done initing nodelet '' @ c_str name) s7
                   in (Inr True, s8))))"

text \<open>The branch taken when the name is in the map already.\<close>

definition load_exists :: "string \<Rightarrow> loader_state \<Rightarrow> (exn + bool) \<times> loader_state" where
  "load_exists name s =
     (Inr False,
      ROS_ERROR (''Cannot load nodelet '' @ c_str name
                 @ '' for one exists with that name already'') s)"

definition load ::
  "string \<Rightarrow> string \<Rightarrow> M_string \<Rightarrow> string list \<Rightarrow> bond option \<Rightarrow> loader_state
     \<Rightarrow> (exn + bool) \<times> loader_state" where
  "load name type remappings my_argv bond s =
     (if map_count name (nodelets s) > 0
      then load_exists name s
      else load_try name type remappings my_argv bond s)"

subsubsection \<open>\<open>Loader::unload\<close>, \<open>Loader::clear\<close>, \<open>Loader::listLoadedNodelets\<close>\<close>

text \<open>\<open>Nodelet::disable\<close> is taken to return.\<close>

definition unload :: "string \<Rightarrow> loader_state \<Rightarrow> bool \<times> loader_state" where
  "unload name s =
     (case map_find name (nodelets s) of
        Some p \<Rightarrow>
          (let s1 = emit (Disable name) s;
               s2 = emit (MapErase name) (s1\<lparr>nodelets := map_erase name (nodelets s1)\<rparr>);
               s3 = ROS_DEBUG (''Done unloading nodelet '' @ c_str name) s2
           in (True, s3))
      | None \<Rightarrow> (False, s))"

text \<open>\<open>nodelets_.clear()\<close>: every pointer the map held is released.\<close>

definition nodelets_clear :: "loader_state \<Rightarrow> loader_state" where
  "nodelets_clear s = emit (NodeletsClear (map_keys (nodelets s))) (s\<lparr>nodelets := []\<rparr>)"

definition clear :: "loader_state \<Rightarrow> bool \<times> loader_state" where
  "clear s = (True, nodelets_clear s)"

text \<open>The loop of \<open>listLoadedNodelets\<close>: \<open>it\<close> is what remains to be visited.\<close>

fun list_loop :: "'v std_map \<Rightarrow> string list \<Rightarrow> string list" where
  "list_loop [] output = output"
| "list_loop (entry # it) output = list_loop it (output @ [fst entry])"

definition listLoadedNodelets :: "loader_state \<Rightarrow> string list" where
  "listLoadedNodelets s = list_loop (nodelets s) []"

subsubsection \<open>Construction and destruction\<close>

text \<open>\<open>%d\<close> of an \<open>int\<close>.\<close>

function show_nat :: "nat \<Rightarrow> string" where
  "show_nat n =
     (if n < 10 then [char_of (48 + n)]
      else show_nat (n div 10) @ [char_of (48 + n mod 10)])"
  by pat_completeness auto
termination
  by (relation "measure (\<lambda>n. n)") auto

definition show_int :: "int \<Rightarrow> string" where
  "show_int i = (if i < 0 then CHR ''-'' # show_nat (nat (- i)) else show_nat (nat i))"

text \<open>The constructor of \<open>LoaderROS\<close>, and \<open>services_.reset(new detail::LoaderROS(...))\<close>.\<close>

definition LoaderROS_new :: "node_handle \<Rightarrow> loader_state \<Rightarrow> loader_state" where
  "LoaderROS_new server_nh s =
     (let s1 = emit (AdvertiseService ''load_nodelet'') s;
          s2 = emit (AdvertiseService ''unload_nodelet'') s1;
          s3 = emit (AdvertiseService ''list'') s2;
          s4 = emit SpinnerStart s3
      in s4\<lparr>services := Some \<lparr>nh = server_nh\<rparr>\<rparr>)"

definition constructorImplementation :: "bool \<Rightarrow> node_handle \<Rightarrow> loader_state \<Rightarrow> loader_state" where
  "constructorImplementation provide_ros_api server_nh s =
     (let s1 =
        (if provide_ros_api
         then (let s' = LoaderROS_new server_nh s in
               case num_worker_threads server_nh of
                 Some num_threads_param \<Rightarrow>
                   ROS_INFO (''Initializing nodelet with '' @ show_int num_threads_param
                             @ '' worker threads.'')
                     (emit (ManagerNew (Some num_threads_param))
                        (s'\<lparr>callback_manager :=
                              Some \<lparr>num_threads = Some num_threads_param, running = True\<rparr>\<rparr>))
               | None \<Rightarrow> s')
         else s)
      in if callback_manager s1 = None
         then emit (ManagerNew None)
                (s1\<lparr>callback_manager := Some \<lparr>num_threads = None, running = True\<rparr>\<rparr>)
         else s1)"

text \<open>\<open>Loader::Loader\<close>, from the plugin class loader and the node handle it is given.\<close>

definition Loader_new :: "class_loader \<Rightarrow> bool \<Rightarrow> node_handle \<Rightarrow> loader_state" where
  "Loader_new cl provide_ros_api server_nh =
     constructorImplementation provide_ros_api server_nh
       \<lparr>nodelets = [], loader = cl, callback_manager = None, services = None, trace = []\<rparr>"

text \<open>
  The statements of \<open>Loader::~Loader\<close>, one function each (\<open>nodelets_.clear()\<close> is
  \<open>nodelets_clear\<close> above). \<open>callback_manager_->stop()\<close> dereferences the pointer: there
  is no result when it is null.
\<close>

definition services_reset :: "loader_state \<Rightarrow> loader_state" where
  "services_reset s = emit ServicesReset (s\<lparr>services := None\<rparr>)"

definition callback_manager_stop :: "loader_state \<Rightarrow> loader_state option" where
  "callback_manager_stop s =
     (case callback_manager s of
        None \<Rightarrow> None
      | Some m \<Rightarrow> Some (emit ManagerStop (s\<lparr>callback_manager := Some (m\<lparr>running := False\<rparr>)\<rparr>)))"

definition callback_manager_reset :: "loader_state \<Rightarrow> loader_state" where
  "callback_manager_reset s = emit ManagerReset (s\<lparr>callback_manager := None\<rparr>)"

definition destructor :: "loader_state \<Rightarrow> loader_state option" where
  "destructor s =
     (case callback_manager_stop (services_reset s) of
        None \<Rightarrow> None
      | Some s2 \<Rightarrow> Some (callback_manager_reset (nodelets_clear s2)))"

text \<open>The events written between two states.\<close>

definition emitted :: "loader_state \<Rightarrow> loader_state \<Rightarrow> event list" where
  "emitted s s' = drop (length (trace s)) (trace s')"

subsection \<open>\<open>LoaderROS\<close>: the services\<close>

record NodeletLoad_Request =
  req_name :: string
  req_type :: string
  remap_source_args :: "string list"
  remap_target_args :: "string list"
  req_my_argv :: "string list"
  req_bond_id :: string

text \<open>
  The loop that fills \<open>remappings\<close>, entered only when the two lists have the same
  length. \<open>resolve\<close> is \<open>ros::names::resolve\<close>, \<open>None\<close> when it throws.
\<close>

function remap_loop ::
  "(string \<Rightarrow> string option) \<Rightarrow> string list \<Rightarrow> string list \<Rightarrow> nat \<Rightarrow> M_string \<Rightarrow> loader_state
     \<Rightarrow> (exn + M_string) \<times> loader_state" where
  "remap_loop resolve src tgt i remappings s =
     (if i < length src
      then (case (resolve (src ! i), resolve (tgt ! i)) of
              (Some rs, Some rt) \<Rightarrow>
                remap_loop resolve src tgt (Suc i) (map_assign rs rt remappings)
                  (ROS_DEBUG (c_str rs @ '':'' @ c_str rt @ [CHR 0x0A]) s)
            | _ \<Rightarrow> (Inl InvalidNameException, s))
      else (Inr remappings, s))"
  by pat_completeness auto
termination
  by (relation "measure (\<lambda>(resolve, src, tgt, i, remappings, s). length src - i)") auto

definition build_map ::
  "(string \<Rightarrow> string option) \<Rightarrow> NodeletLoad_Request \<Rightarrow> loader_state
     \<Rightarrow> (exn + M_string) \<times> loader_state" where
  "build_map resolve req s =
     (if length (remap_source_args req) \<noteq> length (remap_target_args req)
      then (Inr [],
            ROS_ERROR ''Bad remapppings provided, target and source of different length'' s)
      else remap_loop resolve (remap_source_args req) (remap_target_args req) 0 [] s)"

definition make_bond :: "loader_ros \<Rightarrow> NodeletLoad_Request \<Rightarrow> loader_state
     \<Rightarrow> bond option \<times> loader_state" where
  "make_bond ros req s =
     (if req_bond_id req \<noteq> []
      then (let b = \<lparr>bond_topic = getNamespace (nh ros) @ ''/bond'', bond_id = req_bond_id req\<rparr>
            in (Some b, emit (BondSetCallbackQueue b) (emit (BondNew b) s)))
      else (None, s))"

text \<open>The value returned is \<open>res.success\<close>.\<close>

definition serviceLoad ::
  "(string \<Rightarrow> string option) \<Rightarrow> loader_ros \<Rightarrow> NodeletLoad_Request \<Rightarrow> loader_state
     \<Rightarrow> (exn + bool) \<times> loader_state" where
  "serviceLoad resolve ros req s =
     (case build_map resolve req s of
        (Inl e, s1) \<Rightarrow> (Inl e, s1)
      | (Inr remappings, s1) \<Rightarrow>
          (case make_bond ros req s1 of
             (bond, s2) \<Rightarrow>
               (case load (req_name req) (req_type req) remappings (req_my_argv req) bond s2 of
                  (Inl e, s3) \<Rightarrow> (Inl e, s3)
                | (Inr success, s3) \<Rightarrow>
                    (Inr success,
                     case bond of None \<Rightarrow> s3 | Some b \<Rightarrow> emit (BondStart b) s3))))"

definition serviceUnload :: "string \<Rightarrow> loader_state \<Rightarrow> bool \<times> loader_state" where
  "serviceUnload name s =
     (case unload name s of
        (success, s1) \<Rightarrow>
          (success,
           if \<not> success
           then ROS_ERROR (''Failed to find nodelet with name '' @ [CHR 0x27] @ c_str name
                           @ [CHR 0x27] @ '' to unload.'') s1
           else s1))"

definition serviceList :: "loader_state \<Rightarrow> bool \<times> string list" where
  "serviceList s = (True, listLoadedNodelets s)"

subsection \<open>Sequences of calls\<close>

datatype call =
    Load string string M_string "string list" "bond option"
  | Unload string
  | Clear
  | ListLoadedNodelets

fun perform :: "call \<Rightarrow> loader_state \<Rightarrow> loader_state" where
  "perform (Load name type remappings my_argv bond) s = snd (load name type remappings my_argv bond s)"
| "perform (Unload name) s = snd (unload name s)"
| "perform Clear s = snd (clear s)"
| "perform ListLoadedNodelets s = s"

fun run :: "call list \<Rightarrow> loader_state \<Rightarrow> loader_state" where
  "run [] s = s"
| "run (c # cs) s = run cs (perform c s)"

subsection \<open>Calls of several threads\<close>

text \<open>
  Every thread \<open>t\<close> makes one call of \<open>Loader::load\<close>, with the arguments \<open>calls t\<close>.
\<close>

record load_call =
  call_name :: string
  call_type :: string
  call_remappings :: M_string
  call_my_argv :: "string list"
  call_bond :: "bond option"

text \<open>
  Where a thread is in its call: before the constructor of \<open>scoped_lock\<close> has the mutex;
  holding it, before the test of \<open>nodelets_.count(name)\<close>; past the test, which found the
  name free, and before the \<open>try\<close> block; or out of the function, with what it returned or
  threw, the destructor of \<open>scoped_lock\<close> having released the mutex.
\<close>

datatype pc = Waiting | Locked | Checked | Returned "exn + bool"

text \<open>The loader that the threads share, the thread that holds \<open>lock_\<close>, and the threads.\<close>

record config =
  shared :: loader_state
  lock_owner :: "nat option"
  pcs :: "nat \<Rightarrow> pc"

text \<open>
  One step of thread \<open>t\<close>. A thread that waits for a mutex that is held stays where it
  is.
\<close>

definition thread_step :: "(nat \<Rightarrow> load_call) \<Rightarrow> nat \<Rightarrow> config \<Rightarrow> config" where
  "thread_step calls t c =
     (case pcs c t of
        Waiting \<Rightarrow>
          (if lock_owner c = None
           then c\<lparr>lock_owner := Some t, pcs := (pcs c)(t := Locked)\<rparr>
           else c)
      | Locked \<Rightarrow>
          (if map_count (call_name (calls t)) (nodelets (shared c)) > 0
           then (case load_exists (call_name (calls t)) (shared c) of
                   (r, s') \<Rightarrow> c\<lparr>shared := s', lock_owner := None,
                                 pcs := (pcs c)(t := Returned r)\<rparr>)
           else c\<lparr>pcs := (pcs c)(t := Checked)\<rparr>)
      | Checked \<Rightarrow>
          (case load_try (call_name (calls t)) (call_type (calls t)) (call_remappings (calls t))
                  (call_my_argv (calls t)) (call_bond (calls t)) (shared c) of
             (r, s') \<Rightarrow> c\<lparr>shared := s', lock_owner := None, pcs := (pcs c)(t := Returned r)\<rparr>)
      | Returned r \<Rightarrow> c)"

text \<open>The threads step in the order that a schedule gives.\<close>

fun schedule :: "(nat \<Rightarrow> load_call) \<Rightarrow> nat list \<Rightarrow> config \<Rightarrow> config" where
  "schedule calls [] c = c"
| "schedule calls (t # ts) c = schedule calls ts (thread_step calls t c)"

definition start :: "loader_state \<Rightarrow> config" where
  "start s = \<lparr>shared = s, lock_owner = None, pcs = (\<lambda>t. Waiting)\<rparr>"

text \<open>
  What holds of every configuration the threads reach: a thread between the constructor of
  the lock and its return holds the lock; the name of a thread past the test is not in the
  map; the name of a thread that returned \<open>true\<close> is; and no two threads with one name have
  returned \<open>true\<close>.
\<close>

definition lock_inv :: "(nat \<Rightarrow> load_call) \<Rightarrow> config \<Rightarrow> bool" where
  "lock_inv calls c \<longleftrightarrow>
     (\<forall>t. pcs c t = Locked \<or> pcs c t = Checked \<longrightarrow> lock_owner c = Some t)
     \<and> (\<forall>t. pcs c t = Checked \<longrightarrow> call_name (calls t) \<notin> set (map_keys (nodelets (shared c))))
     \<and> (\<forall>t. pcs c t = Returned (Inr True) \<longrightarrow>
            call_name (calls t) \<in> set (map_keys (nodelets (shared c))))
     \<and> (\<forall>t t'. t \<noteq> t' \<and> call_name (calls t) = call_name (calls t')
            \<and> pcs c t = Returned (Inr True) \<longrightarrow> pcs c t' \<noteq> Returned (Inr True))"

subsection \<open>Reading the trace\<close>

text \<open>The arguments of the calls of \<open>Nodelet::init\<close> in a list of events.\<close>

fun init_calls :: "event list \<Rightarrow> (string \<times> M_string \<times> string list \<times> bond option) list" where
  "init_calls [] = []"
| "init_calls (Init name remappings my_argv bond # es) =
     (name, remappings, my_argv, bond) # init_calls es"
| "init_calls (e # es) = init_calls es"

text \<open>
  The specification speaks of the insertion order of the units in the registry. It is
  read off the trace: a name enters at the end when \<open>nodelets_[name] = p\<close> creates its
  entry, leaves with \<open>erase\<close>, and \<open>clear\<close> empties the sequence.
\<close>

fun insertion_order :: "event list \<Rightarrow> string list \<Rightarrow> string list" where
  "insertion_order [] names = names"
| "insertion_order (MapAssign name # es) names =
     insertion_order es (if name \<in> set names then names else names @ [name])"
| "insertion_order (MapErase name # es) names = insertion_order es (removeAll name names)"
| "insertion_order (NodeletsClear released # es) names = insertion_order es []"
| "insertion_order (e # es) names = insertion_order es names"

subsection \<open>Example inputs\<close>

text \<open>
  A plugin factory that knows four types: one whose nodelets initialize, one whose nodelets
  throw \<open>PluginlibException\<close> from \<open>init\<close>, one whose nodelets throw another exception
  from \<open>init\<close>, one for which it returns a null pointer; any other type is unknown to it.
\<close>

definition good_nodelet :: nodelet where
  "good_nodelet = \<lparr>init_throws = None\<rparr>"

definition failing_nodelet :: nodelet where
  "failing_nodelet = \<lparr>init_throws = Some (PluginlibException ''no such plugin'')\<rparr>"

definition crashing_nodelet :: nodelet where
  "crashing_nodelet = \<lparr>init_throws = Some OtherException\<rparr>"

definition example_factory :: class_loader where
  "example_factory type =
     (if type = ''DriverType'' then Inr (Some good_nodelet)
      else if type = ''FailingInit'' then Inr (Some failing_nodelet)
      else if type = ''CrashingInit'' then Inr (Some crashing_nodelet)
      else if type = ''NullType'' then Inr None
      else Inl (PluginlibException ''unknown class''))"

definition example_nh :: node_handle where
  "example_nh = \<lparr>getNamespace = ''/manager'', num_worker_threads = None\<rparr>"

definition fresh_loader :: loader_state where
  "fresh_loader = Loader_new example_factory True example_nh"

definition cam_loader :: loader_state where
  "cam_loader = snd (load ''cam'' ''DriverType'' [] [] None fresh_loader)"

definition b_loader :: loader_state where
  "b_loader = snd (load ''b'' ''DriverType'' [] [] None fresh_loader)"

definition ba_loader :: loader_state where
  "ba_loader = snd (load ''a'' ''DriverType'' [] [] None b_loader)"

definition example_resolve :: "string \<Rightarrow> string option" where
  "example_resolve x =
     (case x of
        [] \<Rightarrow> None
      | c # cs \<Rightarrow> Some (if c = CHR ''/'' then x else ''/manager/'' @ x))"

definition example_ros :: loader_ros where
  "example_ros = \<lparr>nh = example_nh\<rparr>"

definition mismatched_request :: NodeletLoad_Request where
  "mismatched_request =
     \<lparr>req_name = ''cam'', req_type = ''DriverType'', remap_source_args = [''image''],
      remap_target_args = [], req_my_argv = [], req_bond_id = []\<rparr>"

definition crashing_request :: NodeletLoad_Request where
  "crashing_request = mismatched_request\<lparr>req_type := ''CrashingInit''\<rparr>"

definition example_calls :: "call list" where
  "example_calls =
     [Load ''lidar'' ''FailingInit'' [] [] None, ListLoadedNodelets, Unload ''lidar'',
      Load ''cam'' ''DriverType'' [] [] None, Load ''arm'' ''DriverType'' [] [] None]"


definition two_cam_calls :: "nat \<Rightarrow> load_call" where
  "two_cam_calls t =
     \<lparr>call_name = ''cam'', call_type = ''DriverType'', call_remappings = [],
      call_my_argv = [], call_bond = None\<rparr>"


section \<open>Properties\<close>

subsection \<open>The map operations\<close>

lemma map_find_None_iff: "map_find k m = None \<longleftrightarrow> k \<notin> set (map_keys m)"
  by (induction k m rule: map_find.induct) (simp_all add: map_keys_def)

lemma map_count_eq_0_iff: "map_count k m = 0 \<longleftrightarrow> k \<notin> set (map_keys m)"
  by (simp add: map_count_def map_find_None_iff [symmetric] split: option.splits)

lemma map_find_assign_same: "map_find k (map_assign k v m) = Some v"
  by (induction k v m rule: map_assign.induct) simp_all

lemma map_find_assign_other: "k' \<noteq> k \<Longrightarrow> map_find k' (map_assign k v m) = map_find k' m"
  by (induction k v m rule: map_assign.induct) simp_all

lemma set_keys_assign: "set (map_keys (map_assign k v m)) = insert k (set (map_keys m))"
  by (induction k v m rule: map_assign.induct) (auto simp: map_keys_def)

lemma map_ok_Cons: "map_ok ((k, v) # m) \<longleftrightarrow> (\<forall>x\<in>set (map_keys m). k < x) \<and> map_ok m"
  by (simp add: map_ok_def map_keys_def)

lemma map_ok_assign: "map_ok m \<Longrightarrow> map_ok (map_assign k v m)"
proof (induction k v m rule: map_assign.induct)
  case (1 k v)
  show ?case by (simp add: map_ok_def map_keys_def)
next
  case (2 k v k' v' m)
  from "2.prems" have tl: "map_ok m" and hd: "\<forall>x\<in>set (map_keys m). k' < x"
    by (simp_all add: map_ok_Cons)
  show ?case
  proof (cases "k = k'")
    case True
    with tl hd show ?thesis by (simp add: map_ok_Cons)
  next
    case ne: False
    show ?thesis
    proof (cases "k < k'")
      case True
      with ne tl hd show ?thesis by (auto simp: map_ok_Cons map_keys_def)
    next
      case False
      with ne have "k' < k" by simp
      with ne False "2.IH" [OF ne False tl] hd show ?thesis
        by (simp add: map_ok_Cons set_keys_assign)
    qed
  qed
qed

lemma set_keys_erase_subset: "set (map_keys (map_erase k m)) \<subseteq> set (map_keys m)"
  by (induction k m rule: map_erase.induct) (auto simp: map_keys_def)

lemma map_ok_erase: "map_ok m \<Longrightarrow> map_ok (map_erase k m)"
proof (induction k m rule: map_erase.induct)
  case (1 k)
  show ?case by (simp add: map_ok_def map_keys_def)
next
  case (2 k k' v m)
  then show ?case
    using set_keys_erase_subset [of k m] by (auto simp: map_ok_Cons)
qed

lemma map_find_erase_other: "k' \<noteq> k \<Longrightarrow> map_find k' (map_erase k m) = map_find k' m"
  by (induction k m rule: map_erase.induct) simp_all

lemma map_keys_erase: "map_ok m \<Longrightarrow> map_keys (map_erase k m) = removeAll k (map_keys m)"
proof (induction k m rule: map_erase.induct)
  case (1 k)
  show ?case by (simp add: map_keys_def)
next
  case (2 k k' v m)
  from "2.prems" have tl: "map_ok m" and hd: "\<forall>x\<in>set (map_keys m). k' < x"
    by (simp_all add: map_ok_Cons)
  show ?case
  proof (cases "k' = k")
    case True
    with hd have "k \<notin> set (map_keys m)" by auto
    then have "removeAll k (map_keys m) = map_keys m" by simp
    with True show ?thesis by (simp add: map_keys_def)
  next
    case False
    with "2.IH" [OF False tl] show ?thesis by (simp add: map_keys_def)
  qed
qed

lemma map_ok_distinct: "map_ok m \<Longrightarrow> distinct (map_keys m)"
  unfolding map_ok_def by (simp add: strict_sorted_iff)

lemma map_ok_sorted: "map_ok m \<Longrightarrow> sorted (map_keys m)"
  unfolding map_ok_def by (simp add: strict_sorted_iff)

lemma list_loop_eq: "list_loop m out = out @ map_keys m"
  by (induction m arbitrary: out) (simp_all add: map_keys_def)

subsection \<open>The loader operations\<close>

lemma listLoadedNodelets_keys: "listLoadedNodelets s = map_keys (nodelets s)"
  by (simp add: listLoadedNodelets_def list_loop_eq)

lemmas log_defs = ROS_ERROR_def ROS_DEBUG_def ROS_INFO_def emit_def

lemma fresh_loader_eq:
  "fresh_loader =
     \<lparr>nodelets = [], loader = example_factory,
      callback_manager = Some \<lparr>num_threads = None, running = True\<rparr>,
      services = Some \<lparr>nh = example_nh\<rparr>,
      trace = [AdvertiseService ''load_nodelet'', AdvertiseService ''unload_nodelet'',
               AdvertiseService ''list'', SpinnerStart, ManagerNew None]\<rparr>"
  by (simp add: fresh_loader_def Loader_new_def constructorImplementation_def LoaderROS_new_def
      example_nh_def log_defs Let_def)

lemma cam_loader_eq:
  "cam_loader = fresh_loader\<lparr>nodelets := [(''cam'', good_nodelet)],
      trace := trace fresh_loader @ [CreateClassInstance ''DriverType'', MapAssign ''cam'',
        Log DEBUG ''Done loading nodelet cam'', QueueNew ST ''cam'', QueueNew MT ''cam'',
        Init ''cam'' [] [] None, Log DEBUG ''Done initing nodelet cam'']\<rparr>"
  by (simp add: cam_loader_def fresh_loader_eq load_def load_try_def map_count_def
      createClassInstance_def example_factory_def good_nodelet_def log_defs Let_def c_str_def)

lemma emitted_append: "trace s' = trace s @ es \<Longrightarrow> emitted s s' = es"
  by (simp add: emitted_def)

lemma cam_loader_ok: "map_ok (nodelets cam_loader)"
  by (simp add: cam_loader_eq map_ok_def map_keys_def)

lemma load_catch_nodelets: "nodelets (snd (load_catch name type e s)) = nodelets s"
  by (cases e) (simp_all add: load_catch_def log_defs)

lemma b_loader_eq:
  "b_loader = fresh_loader\<lparr>nodelets := [(''b'', good_nodelet)],
      trace := trace fresh_loader @ [CreateClassInstance ''DriverType'', MapAssign ''b'',
        Log DEBUG ''Done loading nodelet b'', QueueNew ST ''b'', QueueNew MT ''b'',
        Init ''b'' [] [] None, Log DEBUG ''Done initing nodelet b'']\<rparr>"
  by (simp add: b_loader_def fresh_loader_eq load_def load_try_def map_count_def
      createClassInstance_def example_factory_def good_nodelet_def log_defs Let_def c_str_def)

lemma ba_loader_eq:
  "ba_loader = fresh_loader\<lparr>nodelets := [(''a'', good_nodelet), (''b'', good_nodelet)],
      trace := trace fresh_loader @ [CreateClassInstance ''DriverType'', MapAssign ''b'',
        Log DEBUG ''Done loading nodelet b'', QueueNew ST ''b'', QueueNew MT ''b'',
        Init ''b'' [] [] None, Log DEBUG ''Done initing nodelet b'',
        CreateClassInstance ''DriverType'', MapAssign ''a'',
        Log DEBUG ''Done loading nodelet a'', QueueNew ST ''a'', QueueNew MT ''a'',
        Init ''a'' [] [] None, Log DEBUG ''Done initing nodelet a'']\<rparr>"
  by (simp add: ba_loader_def b_loader_eq fresh_loader_eq load_def load_try_def map_count_def
      createClassInstance_def example_factory_def good_nodelet_def log_defs Let_def c_str_def)

lemma keys_as_set: "set (map_keys m) = {k. map_find k m \<noteq> None}"
  by (auto simp: map_find_None_iff)

lemma ba_loader_ok: "map_ok (nodelets ba_loader)"
  by (simp add: ba_loader_eq map_ok_def map_keys_def)

subsection \<open>What the calls do to the map\<close>

lemma load_try_nodelets:
  "nodelets (snd (load_try name type remappings my_argv bond s)) = nodelets s
   \<or> (\<exists>p. nodelets (snd (load_try name type remappings my_argv bond s)) =
            map_assign name p (nodelets s))"
  by (auto simp: load_try_def load_catch_nodelets log_defs Let_def
      split: sum.splits option.splits)

lemma load_nodelets:
  "nodelets (snd (load name type remappings my_argv bond s)) = nodelets s
   \<or> (\<exists>p. nodelets (snd (load name type remappings my_argv bond s)) =
            map_assign name p (nodelets s))"
  using load_try_nodelets [of name type remappings my_argv bond s]
  by (simp add: load_def load_exists_def log_defs)

lemma load_True_nodelets:
  assumes "fst (load name type remappings my_argv bond s) = Inr True"
  shows "\<exists>p. nodelets (snd (load name type remappings my_argv bond s)) =
           map_assign name p (nodelets s)"
  using assms
  by (auto simp: load_def load_exists_def load_try_def load_catch_def log_defs Let_def
      split: if_splits sum.splits option.splits exn.splits)

lemma unload_nodelets:
  "nodelets (snd (unload name s)) = nodelets s
   \<or> nodelets (snd (unload name s)) = map_erase name (nodelets s)"
  by (simp add: unload_def log_defs Let_def split: option.splits)

lemma perform_map_ok: "map_ok (nodelets s) \<Longrightarrow> map_ok (nodelets (perform c s))"
proof (cases c)
  case (Load name type remappings my_argv bond)
  assume "map_ok (nodelets s)"
  with load_nodelets [of name type remappings my_argv bond s] Load show ?thesis
    by (auto simp: map_ok_assign)
next
  case (Unload name)
  assume "map_ok (nodelets s)"
  with unload_nodelets [of name s] Unload show ?thesis
    by (auto simp: map_ok_erase)
next
  case Clear
  then show ?thesis
    by (simp add: clear_def nodelets_clear_def log_defs map_ok_def map_keys_def)
next
  case ListLoadedNodelets
  assume "map_ok (nodelets s)"
  with ListLoadedNodelets show ?thesis by simp
qed

lemma run_map_ok: "map_ok (nodelets s) \<Longrightarrow> map_ok (nodelets (run cs s))"
  by (induction cs arbitrary: s) (simp_all add: perform_map_ok)

lemma set_keys_erase:
  assumes other: "k' \<noteq> k" and present: "k' \<in> set (map_keys m)"
  shows "k' \<in> set (map_keys (map_erase k m))"
proof -
  from present have "map_find k' m \<noteq> None"
    by (simp add: map_find_None_iff)
  with map_find_erase_other [OF other, of m] have "map_find k' (map_erase k m) \<noteq> None"
    by simp
  then show ?thesis
    by (simp add: map_find_None_iff)
qed

lemma perform_keeps_name:
  assumes present: "n \<in> set (map_keys (nodelets s))"
    and other: "c \<noteq> Clear \<and> c \<noteq> Unload n"
  shows "n \<in> set (map_keys (nodelets (perform c s)))"
proof (cases c)
  case (Load name type remappings my_argv bond)
  with load_nodelets [of name type remappings my_argv bond s] present show ?thesis
    by (auto simp: set_keys_assign)
next
  case (Unload name)
  with other have "n \<noteq> name" by simp
  with unload_nodelets [of name s] Unload present show ?thesis
    by (auto simp: set_keys_erase)
next
  case Clear
  with other show ?thesis by simp
next
  case ListLoadedNodelets
  with present show ?thesis by simp
qed

lemma run_keeps_name:
  "n \<in> set (map_keys (nodelets s)) \<Longrightarrow> \<forall>c\<in>set cs. c \<noteq> Clear \<and> c \<noteq> Unload n
     \<Longrightarrow> n \<in> set (map_keys (nodelets (run cs s)))"
  by (induction cs arbitrary: s) (simp_all add: perform_keeps_name)

lemma count_list_distinct: "distinct xs \<Longrightarrow> count_list xs x = (if x \<in> set xs then 1 else 0)"
  by (induction xs) auto

lemma count_listed:
  "map_ok (nodelets s) \<Longrightarrow>
     count_list (listLoadedNodelets s) n = (if n \<in> set (map_keys (nodelets s)) then 1 else 0)"
  by (simp add: listLoadedNodelets_keys count_list_distinct map_ok_distinct)

lemma fresh_loader_ok: "map_ok (nodelets fresh_loader)"
  by (simp add: fresh_loader_eq map_ok_def map_keys_def)

lemma cam_loaded: "fst (load ''cam'' ''DriverType'' [] [] None fresh_loader) = Inr True"
  by (simp add: fresh_loader_eq load_def load_try_def map_count_def
      createClassInstance_def example_factory_def good_nodelet_def log_defs Let_def)

lemma example_run_names: "listLoadedNodelets (run example_calls cam_loader) = [''arm'', ''cam'']"
  by (simp add: example_calls_def cam_loader_eq fresh_loader_eq listLoadedNodelets_keys
      map_keys_def load_def load_exists_def load_try_def load_catch_def unload_def map_count_def
      createClassInstance_def example_factory_def good_nodelet_def failing_nodelet_def
      log_defs Let_def)

subsection \<open>The queue manager and the map of a loader in use\<close>

lemma perform_callback_manager: "callback_manager (perform c s) = callback_manager s"
proof (cases c)
  case (Load name type remappings my_argv bond)
  then show ?thesis
    by (auto simp: load_def load_exists_def load_try_def load_catch_def log_defs Let_def
        split: sum.splits option.splits exn.splits)
next
  case (Unload name)
  then show ?thesis
    by (simp add: unload_def log_defs Let_def split: option.splits)
next
  case Clear
  then show ?thesis
    by (simp add: clear_def nodelets_clear_def log_defs)
next
  case ListLoadedNodelets
  then show ?thesis by simp
qed

lemma run_callback_manager: "callback_manager (run cs s) = callback_manager s"
  by (induction cs arbitrary: s) (simp_all add: perform_callback_manager)

lemma Loader_new_callback_manager:
  "\<exists>m. callback_manager (run cs (Loader_new cl provide_ros_api server_nh)) = Some m \<and> running m"
  by (simp add: run_callback_manager Loader_new_def constructorImplementation_def
      LoaderROS_new_def log_defs Let_def split: option.splits)

lemma Loader_new_map_ok: "map_ok (nodelets (run cs (Loader_new cl provide_ros_api server_nh)))"
proof (rule run_map_ok)
  show "map_ok (nodelets (Loader_new cl provide_ros_api server_nh))"
    by (simp add: Loader_new_def constructorImplementation_def LoaderROS_new_def log_defs
        Let_def map_ok_def map_keys_def split: option.splits)
qed

subsection \<open>The load service with lists of different lengths\<close>

lemma load_True_iff:
  "fst (load name type remappings my_argv bond s) = Inr True \<longleftrightarrow>
     map_count name (nodelets s) = 0
     \<and> (\<exists>p. createClassInstance (loader s) type = Inr (Some p) \<and> init_throws p = None)"
  by (auto simp: load_def load_exists_def load_try_def load_catch_def log_defs Let_def
      split: sum.splits option.splits exn.splits)

lemma make_bond_fields:
  "nodelets (snd (make_bond ros req s)) = nodelets s"
  "loader (snd (make_bond ros req s)) = loader s"
  by (simp_all add: make_bond_def log_defs Let_def)

lemma serviceLoad_mismatch_eq:
  assumes mismatch: "length (remap_source_args req) \<noteq> length (remap_target_args req)"
  shows "serviceLoad resolve ros req s =
     (case make_bond ros req
             (ROS_ERROR ''Bad remapppings provided, target and source of different length'' s) of
        (bond, s2) \<Rightarrow>
          (case load (req_name req) (req_type req) [] (req_my_argv req) bond s2 of
             (Inl e, s3) \<Rightarrow> (Inl e, s3)
           | (Inr success, s3) \<Rightarrow>
               (Inr success, case bond of None \<Rightarrow> s3 | Some b \<Rightarrow> emit (BondStart b) s3)))"
  using mismatch by (simp add: serviceLoad_def build_map_def)

lemma load_False_iff:
  "fst (load name type remappings my_argv bond s) = Inr False \<longleftrightarrow>
     map_count name (nodelets s) > 0
     \<or> (\<exists>what. createClassInstance (loader s) type = Inl (PluginlibException what))
     \<or> createClassInstance (loader s) type = Inr None
     \<or> (\<exists>p what. createClassInstance (loader s) type = Inr (Some p)
           \<and> init_throws p = Some (PluginlibException what))"
  by (auto simp: load_def load_exists_def load_try_def load_catch_def log_defs Let_def
      split: sum.splits option.splits exn.splits)

lemma load_Inl_iff:
  "fst (load name type remappings my_argv bond s) = Inl e \<longleftrightarrow>
     map_count name (nodelets s) = 0
     \<and> (\<forall>what. e \<noteq> PluginlibException what)
     \<and> (createClassInstance (loader s) type = Inl e
         \<or> (\<exists>p. createClassInstance (loader s) type = Inr (Some p) \<and> init_throws p = Some e))"
  by (auto simp: load_def load_exists_def load_try_def load_catch_def log_defs Let_def
      split: sum.splits option.splits exn.splits)

lemma load_init_exception:
  assumes free: "map_count name (nodelets s) = 0"
    and built: "createClassInstance (loader s) type = Inr (Some p)"
    and throws: "init_throws p = Some (PluginlibException what)"
  shows "fst (load name type remappings my_argv bond s) = Inr False"
    and "map_find name (nodelets (snd (load name type remappings my_argv bond s))) = Some p"
  using assms
  by (simp_all add: load_def load_try_def load_catch_def log_defs Let_def map_find_assign_same)

lemma crashing_mismatched:
  "length (remap_source_args crashing_request) \<noteq> length (remap_target_args crashing_request)"
  by (simp add: crashing_request_def mismatched_request_def)

lemma load_result_independent:
  assumes "nodelets s' = nodelets s" and "loader s' = loader s"
  shows "fst (load name type remappings' my_argv' bond' s') =
         fst (load name type remappings my_argv bond s)"
  using assms
  by (auto simp: load_def load_exists_def load_try_def load_catch_def log_defs Let_def
      split: sum.splits option.splits exn.splits)

lemma init_calls_append: "init_calls (es @ es') = init_calls es @ init_calls es'"
  by (induction es rule: init_calls.induct) simp_all

lemma load_events:
  "\<exists>es. trace (snd (load name type remappings my_argv bond s)) = trace s @ es
     \<and> init_calls es =
         (if map_count name (nodelets s) = 0
             \<and> (\<exists>p. createClassInstance (loader s) type = Inr (Some p))
          then [(name, remappings, my_argv, bond)] else [])"
  by (auto simp: load_def load_exists_def load_try_def load_catch_def log_defs Let_def
      split: sum.splits option.splits exn.splits)

lemma make_bond_events:
  "\<exists>es. trace (snd (make_bond ros req s)) = trace s @ es \<and> init_calls es = []"
  by (simp add: make_bond_def log_defs Let_def)

lemma make_bond_result: "fst (make_bond ros req s') = fst (make_bond ros req s)"
  by (simp add: make_bond_def Let_def)

lemma serviceLoad_mismatch_events:
  assumes mismatch: "length (remap_source_args req) \<noteq> length (remap_target_args req)"
  shows "\<exists>es. emitted s (snd (serviceLoad resolve ros req s)) =
           Log ERROR ''Bad remapppings provided, target and source of different length'' # es
         \<and> init_calls es =
             (if map_count (req_name req) (nodelets s) = 0
                 \<and> (\<exists>p. createClassInstance (loader s) (req_type req) = Inr (Some p))
              then [(req_name req, [], req_my_argv req, fst (make_bond ros req s))] else [])"
proof -
  let ?s1 = "ROS_ERROR ''Bad remapppings provided, target and source of different length'' s"
  let ?bond = "fst (make_bond ros req ?s1)"
  let ?s2 = "snd (make_bond ros req ?s1)"
  let ?r = "load (req_name req) (req_type req) [] (req_my_argv req) ?bond ?s2"
  have t1: "trace ?s1 =
      trace s @ [Log ERROR ''Bad remapppings provided, target and source of different length'']"
    by (simp add: log_defs)
  from make_bond_events [of ros req ?s1] obtain es2
    where t2: "trace ?s2 = trace ?s1 @ es2" and i2: "init_calls es2 = []"
    by blast
  have same: "nodelets ?s2 = nodelets s" "loader ?s2 = loader s"
    by (simp_all add: make_bond_fields log_defs)
  from load_events [of "req_name req" "req_type req" "[]" "req_my_argv req" ?bond ?s2] same
  obtain es3 where t3: "trace (snd ?r) = trace ?s2 @ es3"
    and i3: "init_calls es3 =
         (if map_count (req_name req) (nodelets s) = 0
             \<and> (\<exists>p. createClassInstance (loader s) (req_type req) = Inr (Some p))
          then [(req_name req, [], req_my_argv req, ?bond)] else [])"
    by auto
  have "\<exists>es4. trace (snd (serviceLoad resolve ros req s)) = trace (snd ?r) @ es4
      \<and> init_calls es4 = []"
    by (auto simp: serviceLoad_mismatch_eq [OF mismatch] log_defs
        split: prod.splits sum.splits option.splits)
  then obtain es4 where t4: "trace (snd (serviceLoad resolve ros req s)) = trace (snd ?r) @ es4"
    and i4: "init_calls es4 = []"
    by blast
  have "emitted s (snd (serviceLoad resolve ros req s)) =
      Log ERROR ''Bad remapppings provided, target and source of different length''
        # (es2 @ es3 @ es4)"
    by (simp add: emitted_def t4 t3 t2 t1)
  moreover have "init_calls (es2 @ es3 @ es4) =
      (if map_count (req_name req) (nodelets s) = 0
          \<and> (\<exists>p. createClassInstance (loader s) (req_type req) = Inr (Some p))
       then [(req_name req, [], req_my_argv req, fst (make_bond ros req s))] else [])"
    using make_bond_result [of ros req ?s1 s]
    by (simp add: init_calls_append i2 i3 i4)
  ultimately show ?thesis
    by blast
qed

lemma serviceLoad_mismatch_fst:
  assumes mismatch: "length (remap_source_args req) \<noteq> length (remap_target_args req)"
  shows "fst (serviceLoad resolve ros req s) =
         fst (load (req_name req) (req_type req) [] (req_my_argv req) None s)"
proof -
  let ?s1 = "ROS_ERROR ''Bad remapppings provided, target and source of different length'' s"
  let ?bond = "fst (make_bond ros req ?s1)"
  let ?s2 = "snd (make_bond ros req ?s1)"
  have same: "nodelets ?s2 = nodelets s" "loader ?s2 = loader s"
    by (simp_all add: make_bond_fields log_defs)
  have "fst (serviceLoad resolve ros req s) =
      fst (load (req_name req) (req_type req) [] (req_my_argv req) ?bond ?s2)"
    by (simp add: serviceLoad_mismatch_eq [OF mismatch] split: prod.splits sum.splits)
  also have "\<dots> = fst (load (req_name req) (req_type req) [] (req_my_argv req) None s)"
    using same by (rule load_result_independent)
  finally show ?thesis .
qed

lemma mismatched: 
  "length (remap_source_args mismatched_request) \<noteq> length (remap_target_args mismatched_request)"
  by (simp add: mismatched_request_def)

subsection \<open>The lock\<close>

lemma map_count_pos_iff: "map_count k m > 0 \<longleftrightarrow> k \<in> set (map_keys m)"
  using map_count_eq_0_iff [of k m] by auto

lemma load_try_keys:
  "set (map_keys (nodelets s))
     \<subseteq> set (map_keys (nodelets (snd (load_try name type remappings my_argv bond s))))"
  using load_try_nodelets [of name type remappings my_argv bond s]
  by (auto simp: set_keys_assign)

lemma load_try_True_key:
  assumes "fst (load_try name type remappings my_argv bond s) = Inr True"
  shows "name \<in> set (map_keys (nodelets (snd (load_try name type remappings my_argv bond s))))"
  using assms
  by (auto simp: load_try_def load_catch_def log_defs Let_def set_keys_assign
      split: sum.splits option.splits exn.splits)

lemma load_exists_result:
  "fst (load_exists name s) = Inr False" "nodelets (snd (load_exists name s)) = nodelets s"
  by (simp_all add: load_exists_def log_defs)

lemma lock_inv_start: "lock_inv calls (start s)"
  by (simp add: lock_inv_def start_def)

lemma lock_inv_step:
  assumes inv: "lock_inv calls c"
  shows "lock_inv calls (thread_step calls t c)"
proof (cases "pcs c t")
  case Waiting
  show ?thesis
  proof (cases "lock_owner c = None")
    case True
    with inv have none: "\<forall>t'. pcs c t' \<noteq> Locked \<and> pcs c t' \<noteq> Checked"
      by (auto simp: lock_inv_def)
    have step: "thread_step calls t c = c\<lparr>lock_owner := Some t, pcs := (pcs c)(t := Locked)\<rparr>"
      by (simp add: thread_step_def Waiting True)
    have a: "\<forall>t'. pcs (thread_step calls t c) t' = Locked \<or> pcs (thread_step calls t c) t' = Checked
        \<longrightarrow> lock_owner (thread_step calls t c) = Some t'"
      using none by (auto simp: step)
    have b: "\<forall>t'. pcs (thread_step calls t c) t' = Checked
        \<longrightarrow> call_name (calls t') \<notin> set (map_keys (nodelets (shared (thread_step calls t c))))"
      using none by (auto simp: step)
    have c: "\<forall>t'. pcs (thread_step calls t c) t' = Returned (Inr True)
        \<longrightarrow> call_name (calls t') \<in> set (map_keys (nodelets (shared (thread_step calls t c))))"
      using inv by (auto simp: step lock_inv_def)
    have d: "\<forall>t' t''. t' \<noteq> t'' \<and> call_name (calls t') = call_name (calls t'')
        \<and> pcs (thread_step calls t c) t' = Returned (Inr True)
        \<longrightarrow> pcs (thread_step calls t c) t'' \<noteq> Returned (Inr True)"
      using inv by (auto simp: step lock_inv_def)
    from a b c d show ?thesis
      unfolding lock_inv_def by blast
  next
    case False
    then have "thread_step calls t c = c"
      by (auto simp: thread_step_def Waiting)
    with inv show ?thesis by simp
  qed
next
  case Locked
  with inv have owner: "lock_owner c = Some t"
    by (simp add: lock_inv_def)
  with inv have alone: "\<forall>t'. t' \<noteq> t \<longrightarrow> pcs c t' \<noteq> Locked \<and> pcs c t' \<noteq> Checked"
    by (auto simp: lock_inv_def)
  show ?thesis
  proof (cases "map_count (call_name (calls t)) (nodelets (shared c)) > 0")
    case True
    have step: "thread_step calls t c =
        c\<lparr>shared := snd (load_exists (call_name (calls t)) (shared c)), lock_owner := None,
          pcs := (pcs c)(t := Returned (Inr False))\<rparr>"
      by (simp add: thread_step_def Locked True load_exists_def)
    have a: "\<forall>t'. pcs (thread_step calls t c) t' = Locked \<or> pcs (thread_step calls t c) t' = Checked
        \<longrightarrow> lock_owner (thread_step calls t c) = Some t'"
      using alone by (auto simp: step)
    have b: "\<forall>t'. pcs (thread_step calls t c) t' = Checked
        \<longrightarrow> call_name (calls t') \<notin> set (map_keys (nodelets (shared (thread_step calls t c))))"
      using alone by (auto simp: step)
    have c: "\<forall>t'. pcs (thread_step calls t c) t' = Returned (Inr True)
        \<longrightarrow> call_name (calls t') \<in> set (map_keys (nodelets (shared (thread_step calls t c))))"
      using inv by (auto simp: step lock_inv_def load_exists_result)
    have d: "\<forall>t' t''. t' \<noteq> t'' \<and> call_name (calls t') = call_name (calls t'')
        \<and> pcs (thread_step calls t c) t' = Returned (Inr True)
        \<longrightarrow> pcs (thread_step calls t c) t'' \<noteq> Returned (Inr True)"
      using inv by (auto simp: step lock_inv_def)
    from a b c d show ?thesis
      unfolding lock_inv_def by blast
  next
    case False
    then have free: "call_name (calls t) \<notin> set (map_keys (nodelets (shared c)))"
      by (simp add: map_count_pos_iff)
    have step: "thread_step calls t c = c\<lparr>pcs := (pcs c)(t := Checked)\<rparr>"
      by (simp add: thread_step_def Locked False)
    have a: "\<forall>t'. pcs (thread_step calls t c) t' = Locked \<or> pcs (thread_step calls t c) t' = Checked
        \<longrightarrow> lock_owner (thread_step calls t c) = Some t'"
      using alone owner by (auto simp: step)
    have b: "\<forall>t'. pcs (thread_step calls t c) t' = Checked
        \<longrightarrow> call_name (calls t') \<notin> set (map_keys (nodelets (shared (thread_step calls t c))))"
      using alone free by (auto simp: step)
    have c: "\<forall>t'. pcs (thread_step calls t c) t' = Returned (Inr True)
        \<longrightarrow> call_name (calls t') \<in> set (map_keys (nodelets (shared (thread_step calls t c))))"
      using inv by (auto simp: step lock_inv_def)
    have d: "\<forall>t' t''. t' \<noteq> t'' \<and> call_name (calls t') = call_name (calls t'')
        \<and> pcs (thread_step calls t c) t' = Returned (Inr True)
        \<longrightarrow> pcs (thread_step calls t c) t'' \<noteq> Returned (Inr True)"
      using inv by (auto simp: step lock_inv_def)
    from a b c d show ?thesis
      unfolding lock_inv_def by blast
  qed
next
  case Checked
  let ?r = "load_try (call_name (calls t)) (call_type (calls t)) (call_remappings (calls t))
                  (call_my_argv (calls t)) (call_bond (calls t)) (shared c)"
  from Checked inv have owner: "lock_owner c = Some t"
    by (simp add: lock_inv_def)
  with inv have alone: "\<forall>t'. t' \<noteq> t \<longrightarrow> pcs c t' \<noteq> Locked \<and> pcs c t' \<noteq> Checked"
    by (auto simp: lock_inv_def)
  from Checked inv have free: "call_name (calls t) \<notin> set (map_keys (nodelets (shared c)))"
    by (simp add: lock_inv_def)
  have step: "thread_step calls t c =
      c\<lparr>shared := snd ?r, lock_owner := None, pcs := (pcs c)(t := Returned (fst ?r))\<rparr>"
    by (simp add: thread_step_def Checked split: prod.splits)
  have grows: "set (map_keys (nodelets (shared c))) \<subseteq> set (map_keys (nodelets (snd ?r)))"
    by (rule load_try_keys)
  have mine: "fst ?r = Inr True \<Longrightarrow> call_name (calls t) \<in> set (map_keys (nodelets (snd ?r)))"
    by (rule load_try_True_key)
  have others: "\<forall>t'. t' \<noteq> t \<and> call_name (calls t') = call_name (calls t)
      \<longrightarrow> pcs c t' \<noteq> Returned (Inr True)"
    using inv free by (auto simp: lock_inv_def)
  have a: "\<forall>t'. pcs (thread_step calls t c) t' = Locked \<or> pcs (thread_step calls t c) t' = Checked
      \<longrightarrow> lock_owner (thread_step calls t c) = Some t'"
    using alone by (auto simp: step)
  have b: "\<forall>t'. pcs (thread_step calls t c) t' = Checked
      \<longrightarrow> call_name (calls t') \<notin> set (map_keys (nodelets (shared (thread_step calls t c))))"
    using alone by (auto simp: step)
  have c: "\<forall>t'. pcs (thread_step calls t c) t' = Returned (Inr True)
      \<longrightarrow> call_name (calls t') \<in> set (map_keys (nodelets (shared (thread_step calls t c))))"
    using inv grows mine by (auto simp: step lock_inv_def)
  have d: "\<forall>t' t''. t' \<noteq> t'' \<and> call_name (calls t') = call_name (calls t'')
      \<and> pcs (thread_step calls t c) t' = Returned (Inr True)
      \<longrightarrow> pcs (thread_step calls t c) t'' \<noteq> Returned (Inr True)"
    using inv others by (auto simp: step lock_inv_def)
  from a b c d show ?thesis
    unfolding lock_inv_def by blast
next
  case (Returned r)
  with inv show ?thesis by (simp add: thread_step_def)
qed

lemma lock_inv_schedule: "lock_inv calls c \<Longrightarrow> lock_inv calls (schedule calls ts c)"
  by (induction ts arbitrary: c) (simp_all add: lock_inv_step)

lemma alone_is_load:
  assumes "pcs c t = Waiting" and "lock_owner c = None"
  shows "schedule calls [t, t, t] c =
     c\<lparr>shared := snd (load (call_name (calls t)) (call_type (calls t)) (call_remappings (calls t))
                   (call_my_argv (calls t)) (call_bond (calls t)) (shared c)),
       lock_owner := None,
       pcs := (pcs c)(t := Returned (fst (load (call_name (calls t)) (call_type (calls t))
                   (call_remappings (calls t)) (call_my_argv (calls t)) (call_bond (calls t))
                   (shared c))))\<rparr>"
  using assms
  by (simp add: thread_step_def load_def split: prod.splits)


lemma two_cam_schedule:
  "pcs (schedule two_cam_calls [0, 1, 0, 1, 0, 1, 1] (start fresh_loader)) 0 = Returned (Inr True)"
  "pcs (schedule two_cam_calls [0, 1, 0, 1, 0, 1, 1] (start fresh_loader)) 1 = Returned (Inr False)"
  by (simp_all add: thread_step_def start_def two_cam_calls_def fresh_loader_eq
      load_exists_def load_try_def map_count_def createClassInstance_def example_factory_def
      good_nodelet_def log_defs Let_def)

section \<open>The claims\<close>

subsection \<open>Loading\<close>

text \<open>
  C1. A \<open>load\<close> that fails is to leave no entry under the requested name, whether the
  factory fails, the instance is null or \<open>init\<close> throws. The code does not do so on the last
  of the three. On a loader that holds nothing, the factory builds a nodelet whose \<open>init\<close>
  throws \<open>PluginlibException\<close>: the pointer is in the map by then, the handler logs, \<open>load\<close>
  returns \<open>false\<close>, and the entry stays and is listed. Where it is the factory that throws,
  the same handler runs and no entry is left.
\<close>

theorem load_init_exception_keeps_entry:
  "map_find ''cam'' (nodelets fresh_loader) = None
   \<and> createClassInstance (loader fresh_loader) ''FailingInit'' = Inr (Some failing_nodelet)
   \<and> init_throws failing_nodelet = Some (PluginlibException ''no such plugin'')
   \<and> fst (load ''cam'' ''FailingInit'' [] [] None fresh_loader) = Inr False
   \<and> map_find ''cam'' (nodelets (snd (load ''cam'' ''FailingInit'' [] [] None fresh_loader))) =
       Some failing_nodelet
   \<and> listLoadedNodelets (snd (load ''cam'' ''FailingInit'' [] [] None fresh_loader)) = [''cam'']
   \<and> emitted fresh_loader (snd (load ''cam'' ''FailingInit'' [] [] None fresh_loader)) =
       [CreateClassInstance ''FailingInit'', MapAssign ''cam'',
        Log DEBUG ''Done loading nodelet cam'', QueueNew ST ''cam'', QueueNew MT ''cam'',
        Init ''cam'' [] [] None,
        Log ERROR ''Failed to load nodelet [cam] of type [FailingInit]: no such plugin'']
   \<and> fst (load ''cam'' ''Unknown'' [] [] None fresh_loader) = Inr False
   \<and> map_find ''cam'' (nodelets (snd (load ''cam'' ''Unknown'' [] [] None fresh_loader))) = None"
  by (simp add: fresh_loader_eq load_def load_try_def load_catch_def map_count_def
      createClassInstance_def example_factory_def failing_nodelet_def log_defs Let_def
      listLoadedNodelets_keys map_keys_def emitted_def c_str_def)

text \<open>
  C10. When the name is free and the factory returns a null pointer, \<open>load\<close> returns
  \<open>false\<close> having done nothing but call the factory: nothing is put in the map, no queue is
  made and nothing is logged. When the factory throws \<open>PluginlibException\<close> instead, the
  result and the map are the same, and an error message is logged.
\<close>

theorem load_null_instance_silent:
  assumes free: "map_count name (nodelets s) = 0"
  shows "(createClassInstance (loader s) type = Inr None \<longrightarrow>
            load name type remappings my_argv bond s =
              (Inr False, s\<lparr>trace := trace s @ [CreateClassInstance type]\<rparr>))
         \<and> (createClassInstance (loader s) type = Inl (PluginlibException what) \<longrightarrow>
            load name type remappings my_argv bond s =
              (Inr False,
               s\<lparr>trace := trace s @ [CreateClassInstance type,
                   Log ERROR (''Failed to load nodelet ['' @ c_str name @ ''] of type [''
                              @ c_str type @ '']: '' @ what)]\<rparr>))"
  using free by (simp add: load_def load_try_def load_catch_def log_defs Let_def)


theorem load_null_instance_silent_witness:
  "map_count ''cam'' (nodelets fresh_loader) = 0
   \<and> createClassInstance (loader fresh_loader) ''NullType'' = Inr None
   \<and> emitted fresh_loader (snd (load ''cam'' ''NullType'' [] [] None fresh_loader)) =
       [CreateClassInstance ''NullType'']
   \<and> nodelets (snd (load ''cam'' ''NullType'' [] [] None fresh_loader)) = []
   \<and> createClassInstance (loader fresh_loader) ''Unknown'' =
       Inl (PluginlibException ''unknown class'')
   \<and> emitted fresh_loader (snd (load ''cam'' ''Unknown'' [] [] None fresh_loader)) =
       [CreateClassInstance ''Unknown'',
        Log ERROR ''Failed to load nodelet [cam] of type [Unknown]: unknown class'']"
proof -
  have free: "map_count ''cam'' (nodelets fresh_loader) = 0"
    by (simp add: fresh_loader_eq map_count_def)
  have null: "createClassInstance (loader fresh_loader) ''NullType'' = Inr None"
    by (simp add: fresh_loader_eq createClassInstance_def example_factory_def)
  have throws: "createClassInstance (loader fresh_loader) ''Unknown'' =
      Inl (PluginlibException ''unknown class'')"
    by (simp add: fresh_loader_eq createClassInstance_def example_factory_def)
  from load_null_instance_silent [OF free, where type = "''NullType''" and remappings = "[]"
      and my_argv = "[]" and bond = None] null
  have silent: "load ''cam'' ''NullType'' [] [] None fresh_loader =
      (Inr False, fresh_loader\<lparr>trace := trace fresh_loader @ [CreateClassInstance ''NullType'']\<rparr>)"
    by simp
  from load_null_instance_silent [OF free, where type = "''Unknown''" and remappings = "[]"
      and my_argv = "[]" and bond = None and what = "''unknown class''"] throws
  have logged: "load ''cam'' ''Unknown'' [] [] None fresh_loader =
      (Inr False, fresh_loader\<lparr>trace := trace fresh_loader @ [CreateClassInstance ''Unknown'',
         Log ERROR (''Failed to load nodelet ['' @ c_str ''cam'' @ ''] of type [''
                    @ c_str ''Unknown'' @ '']: '' @ ''unknown class'')]\<rparr>)"
    by simp
  have a: "emitted fresh_loader (snd (load ''cam'' ''NullType'' [] [] None fresh_loader)) =
       [CreateClassInstance ''NullType'']"
    by (simp add: silent emitted_def)
  have "nodelets (snd (load ''cam'' ''NullType'' [] [] None fresh_loader)) =
      nodelets fresh_loader"
    by (simp add: silent)
  then have b: "nodelets (snd (load ''cam'' ''NullType'' [] [] None fresh_loader)) = []"
    by (simp add: fresh_loader_eq)
  have c: "emitted fresh_loader (snd (load ''cam'' ''Unknown'' [] [] None fresh_loader)) =
       [CreateClassInstance ''Unknown'',
        Log ERROR ''Failed to load nodelet [cam] of type [Unknown]: unknown class'']"
    by (simp add: logged emitted_def c_str_def)
  from free null throws a b c show ?thesis
    by blast
qed


subsection \<open>Unloading\<close>

text \<open>
  C8. \<open>unload\<close> of a name that is not in the map returns \<open>false\<close> and leaves the whole
  loader as it was: the map, the other members, and no event.
\<close>

theorem unload_absent_unchanged:
  "name \<notin> set (map_keys (nodelets s)) \<Longrightarrow> unload name s = (False, s)"
  by (simp add: unload_def map_find_None_iff [symmetric])

theorem unload_absent_unchanged_witness:
  "''cam'' \<notin> set (map_keys (nodelets fresh_loader))
   \<and> unload ''cam'' fresh_loader = (False, fresh_loader)"
proof -
  have absent: "''cam'' \<notin> set (map_keys (nodelets fresh_loader))"
    by (simp add: fresh_loader_eq map_keys_def)
  from absent unload_absent_unchanged [OF absent] show ?thesis by simp
qed

text \<open>
  C9. \<open>unload\<close> of a name that is in the map calls \<open>disable\<close> on its nodelet, then erases
  the entry, and returns \<open>true\<close>. Afterwards the name is not listed, the list is the former
  one without that name, and every other name finds what it found before.
\<close>

theorem unload_present_disables_then_erases:
  assumes ok: "map_ok (nodelets s)"
    and present: "name \<in> set (map_keys (nodelets s))"
  shows "unload name s =
           (True, s\<lparr>nodelets := map_erase name (nodelets s),
                    trace := trace s @ [Disable name, MapErase name,
                                        Log DEBUG (''Done unloading nodelet '' @ c_str name)]\<rparr>)
         \<and> name \<notin> set (listLoadedNodelets (snd (unload name s)))
         \<and> listLoadedNodelets (snd (unload name s)) = removeAll name (listLoadedNodelets s)
         \<and> (\<forall>k. k \<noteq> name \<longrightarrow>
               map_find k (nodelets (snd (unload name s))) = map_find k (nodelets s))"
proof -
  from present obtain p where found: "map_find name (nodelets s) = Some p"
    using map_find_None_iff [of name "nodelets s"] by (cases "map_find name (nodelets s)") auto
  have result: "unload name s =
      (True, s\<lparr>nodelets := map_erase name (nodelets s),
               trace := trace s @ [Disable name, MapErase name,
                                   Log DEBUG (''Done unloading nodelet '' @ c_str name)]\<rparr>)"
    by (simp add: unload_def found log_defs Let_def)
  have keys: "listLoadedNodelets (snd (unload name s)) = removeAll name (listLoadedNodelets s)"
    by (simp add: result listLoadedNodelets_keys map_keys_erase [OF ok])
  have others: "\<forall>k. k \<noteq> name \<longrightarrow>
      map_find k (nodelets (snd (unload name s))) = map_find k (nodelets s)"
    by (simp add: result map_find_erase_other)
  from result keys others show ?thesis by simp
qed

theorem unload_present_witness:
  "map_ok (nodelets cam_loader) \<and> ''cam'' \<in> set (map_keys (nodelets cam_loader))
   \<and> fst (unload ''cam'' cam_loader) = True
   \<and> emitted cam_loader (snd (unload ''cam'' cam_loader)) =
       [Disable ''cam'', MapErase ''cam'', Log DEBUG ''Done unloading nodelet cam'']
   \<and> listLoadedNodelets (snd (unload ''cam'' cam_loader)) = []"
proof -
  have present: "''cam'' \<in> set (map_keys (nodelets cam_loader))"
    by (simp add: cam_loader_eq map_keys_def)
  have before: "listLoadedNodelets cam_loader = [''cam'']"
    by (simp add: listLoadedNodelets_keys cam_loader_eq map_keys_def)
  have msg: "c_str ''cam'' = ''cam''"
    by (simp add: c_str_def)
  note unloaded = unload_present_disables_then_erases [OF cam_loader_ok present]
  from unloaded have result: "fst (unload ''cam'' cam_loader) = True"
    by simp
  from unloaded have events: "emitted cam_loader (snd (unload ''cam'' cam_loader)) =
      [Disable ''cam'', MapErase ''cam'', Log DEBUG ''Done unloading nodelet cam'']"
    by (simp add: msg emitted_def)
  from unloaded have "listLoadedNodelets (snd (unload ''cam'' cam_loader)) =
      removeAll ''cam'' (listLoadedNodelets cam_loader)"
    by blast
  then have names: "listLoadedNodelets (snd (unload ''cam'' cam_loader)) = []"
    by (simp add: before)
  from cam_loader_ok present result events names show ?thesis
    by blast
qed

subsection \<open>Listing\<close>

text \<open>
  The input that claim C7 fails on: \<open>b\<close> is loaded, then \<open>a\<close>. The insertion order is
  \<open>b\<close>, \<open>a\<close>; the list returned is \<open>a\<close>, \<open>b\<close>.
\<close>

theorem list_order_not_insertion_order:
  "fst (load ''b'' ''DriverType'' [] [] None fresh_loader) = Inr True
   \<and> fst (load ''a'' ''DriverType'' [] [] None b_loader) = Inr True
   \<and> insertion_order (trace ba_loader) [] = [''b'', ''a'']
   \<and> listLoadedNodelets ba_loader = [''a'', ''b'']"
  by (simp add: ba_loader_eq b_loader_eq fresh_loader_eq listLoadedNodelets_keys map_keys_def
      load_def load_try_def map_count_def createClassInstance_def example_factory_def
      good_nodelet_def log_defs Let_def)

text \<open>
  C7, as amended. \<open>listLoadedNodelets\<close> returns exactly the keys of the registry map, each
  once, in ascending order of the names (the order in which \<open>std::map\<close> is iterated),
  whatever the order in which the units were inserted.
\<close>

theorem listLoadedNodelets_ascending_keys:
  assumes ok: "map_ok (nodelets s)"
  shows "listLoadedNodelets s = sorted_list_of_set {k. map_find k (nodelets s) \<noteq> None}"
proof -
  have "sorted_list_of_set (set (map_keys (nodelets s))) = map_keys (nodelets s)"
    using map_ok_sorted [OF ok] map_ok_distinct [OF ok]
    by (rule sorted_list_of_set.idem_if_sorted_distinct)
  then show ?thesis
    by (simp add: listLoadedNodelets_keys keys_as_set)
qed

theorem listLoadedNodelets_ascending_witness:
  "map_ok (nodelets ba_loader)
   \<and> listLoadedNodelets ba_loader = [''a'', ''b'']
   \<and> sorted_list_of_set {k. map_find k (nodelets ba_loader) \<noteq> None} = [''a'', ''b'']"
proof -
  have "listLoadedNodelets ba_loader = [''a'', ''b'']"
    by (simp add: listLoadedNodelets_keys ba_loader_eq map_keys_def)
  with listLoadedNodelets_ascending_keys [OF ba_loader_ok] ba_loader_ok show ?thesis
    by simp
qed

subsection \<open>A name from its load to its unload\<close>

text \<open>
  C6. After a \<open>load\<close> of the name \<open>n\<close> that returned \<open>true\<close>, and after any further calls
  among which there is no \<open>clear\<close> and no \<open>unload\<close> of \<open>n\<close>, the list of
  \<open>listLoadedNodelets\<close> holds \<open>n\<close> exactly once. An \<open>unload\<close> of \<open>n\<close> then succeeds, and
  after it, or after a \<open>clear\<close>, the list does not hold \<open>n\<close>.
\<close>

theorem loaded_name_listed_once_until_unloaded:
  assumes ok: "map_ok (nodelets s)"
    and loaded: "fst (load n type remappings my_argv bond s) = Inr True"
    and calls: "\<forall>c\<in>set cs. c \<noteq> Clear \<and> c \<noteq> Unload n"
  shows "count_list (listLoadedNodelets (run cs (snd (load n type remappings my_argv bond s)))) n = 1
         \<and> fst (unload n (run cs (snd (load n type remappings my_argv bond s)))) = True
         \<and> count_list (listLoadedNodelets
              (snd (unload n (run cs (snd (load n type remappings my_argv bond s)))))) n = 0
         \<and> fst (clear (run cs (snd (load n type remappings my_argv bond s)))) = True
         \<and> count_list (listLoadedNodelets
              (snd (clear (run cs (snd (load n type remappings my_argv bond s)))))) n = 0"
proof -
  let ?s1 = "snd (load n type remappings my_argv bond s)"
  let ?s2 = "run cs ?s1"
  from load_True_nodelets [OF loaded] obtain p
    where inserted: "nodelets ?s1 = map_assign n p (nodelets s)" ..
  have ok1: "map_ok (nodelets ?s1)"
    by (simp add: inserted map_ok_assign ok)
  have "n \<in> set (map_keys (nodelets ?s1))"
    by (simp add: inserted set_keys_assign)
  then have present: "n \<in> set (map_keys (nodelets ?s2))"
    using calls by (rule run_keeps_name)
  have ok2: "map_ok (nodelets ?s2)"
    using ok1 by (rule run_map_ok)
  have once: "count_list (listLoadedNodelets ?s2) n = 1"
    by (simp add: count_listed [OF ok2] present)
  from present obtain q where found: "map_find n (nodelets ?s2) = Some q"
    using map_find_None_iff [of n "nodelets ?s2"] by (cases "map_find n (nodelets ?s2)") auto
  have unloaded: "fst (unload n ?s2) = True"
    by (simp add: unload_def found Let_def)
  have erased: "nodelets (snd (unload n ?s2)) = map_erase n (nodelets ?s2)"
    by (simp add: unload_def found log_defs Let_def)
  have "n \<notin> set (map_keys (nodelets (snd (unload n ?s2))))"
    by (simp add: erased map_keys_erase [OF ok2])
  moreover have "map_ok (nodelets (snd (unload n ?s2)))"
    by (simp add: erased map_ok_erase ok2)
  ultimately have gone: "count_list (listLoadedNodelets (snd (unload n ?s2))) n = 0"
    by (simp add: count_listed)
  have cleared: "fst (clear ?s2) = True"
    and empty: "count_list (listLoadedNodelets (snd (clear ?s2))) n = 0"
    by (simp_all add: clear_def nodelets_clear_def log_defs listLoadedNodelets_keys map_keys_def)
  from once unloaded gone cleared empty show ?thesis
    by simp
qed

theorem loaded_name_listed_once_witness:
  "map_ok (nodelets fresh_loader)
   \<and> fst (load ''cam'' ''DriverType'' [] [] None fresh_loader) = Inr True
   \<and> listLoadedNodelets (run example_calls cam_loader) = [''arm'', ''cam'']
   \<and> count_list (listLoadedNodelets (run example_calls cam_loader)) ''cam'' = 1
   \<and> fst (unload ''cam'' (run example_calls cam_loader)) = True
   \<and> count_list (listLoadedNodelets (snd (unload ''cam'' (run example_calls cam_loader)))) ''cam'' = 0
   \<and> count_list (listLoadedNodelets (snd (clear (run example_calls cam_loader)))) ''cam'' = 0"
proof -
  have calls: "\<forall>c\<in>set example_calls. c \<noteq> Clear \<and> c \<noteq> Unload ''cam''"
    by (simp add: example_calls_def)
  from loaded_name_listed_once_until_unloaded [OF fresh_loader_ok cam_loaded calls]
    fresh_loader_ok cam_loaded example_run_names
  show ?thesis
    unfolding cam_loader_def by blast
qed

subsection \<open>Destruction\<close>

text \<open>
  C2. In \<open>Loader::~Loader\<close>, once the services are gone, the queue manager is stopped, then
  the map is cleared, then the pointer to the queue manager is reset, and these are the only
  events. When the map is cleared the manager has been stopped and the pointer still holds
  it; when the pointer is reset the map is empty.
\<close>

theorem destructor_stops_clears_releases:
  assumes pool: "callback_manager s = Some m"
  shows "(\<exists>s2. callback_manager_stop (services_reset s) = Some s2
            \<and> callback_manager s2 = Some (m\<lparr>running := False\<rparr>)
            \<and> nodelets s2 = nodelets s
            \<and> nodelets (nodelets_clear s2) = []
            \<and> callback_manager (nodelets_clear s2) = Some (m\<lparr>running := False\<rparr>)
            \<and> callback_manager (callback_manager_reset (nodelets_clear s2)) = None
            \<and> destructor s = Some (callback_manager_reset (nodelets_clear s2)))
         \<and> (\<exists>s'. destructor s = Some s'
            \<and> emitted s s' =
                [ServicesReset, ManagerStop, NodeletsClear (map_keys (nodelets s)), ManagerReset]
            \<and> nodelets s' = [] \<and> callback_manager s' = None \<and> services s' = None)"
  using pool
  by (simp add: destructor_def callback_manager_stop_def services_reset_def nodelets_clear_def
      callback_manager_reset_def emitted_def log_defs)

theorem destructor_witness:
  "callback_manager ba_loader = Some \<lparr>num_threads = None, running = True\<rparr>
   \<and> callback_manager_stop (services_reset ba_loader) \<noteq> None
   \<and> destructor ba_loader \<noteq> None
   \<and> emitted ba_loader (the (destructor ba_loader)) =
       [ServicesReset, ManagerStop, NodeletsClear [''a'', ''b''], ManagerReset]"
proof -
  have pool: "callback_manager ba_loader = Some \<lparr>num_threads = None, running = True\<rparr>"
    by (simp add: ba_loader_eq fresh_loader_eq)
  have keys: "map_keys (nodelets ba_loader) = [''a'', ''b'']"
    by (simp add: ba_loader_eq map_keys_def)
  from destructor_stops_clears_releases [OF pool] pool keys show ?thesis
    by auto
qed

subsection \<open>The load service\<close>

text \<open>
  The input that claim C3 fails on: one remapping source and no target, a free name and a
  type whose nodelets initialize. \<open>serviceLoad\<close> returns \<open>true\<close>.
\<close>

theorem serviceLoad_mismatch_returns_true:
  "length (remap_source_args mismatched_request) \<noteq> length (remap_target_args mismatched_request)
   \<and> fst (serviceLoad example_resolve example_ros mismatched_request fresh_loader) = Inr True"
  by (simp add: serviceLoad_def build_map_def make_bond_def mismatched_request_def
      fresh_loader_eq load_def load_try_def map_count_def createClassInstance_def
      example_factory_def good_nodelet_def log_defs Let_def)

text \<open>
  C3, as amended. When the two remapping lists differ in length, \<open>serviceLoad\<close> logs an
  error first, calls \<open>Loader::load\<close> with the empty remapping table and ends as that call
  ends. It returns \<open>true\<close> exactly when the name is free, the factory builds a nodelet and
  its \<open>init\<close> returns. It returns \<open>false\<close> exactly when the name is taken, or the factory
  throws \<open>PluginlibException\<close> or returns a null pointer, or \<open>init\<close> throws
  \<open>PluginlibException\<close>. And it is left by an exception exactly when the name is free and
  the factory or \<open>init\<close> throws that exception, which is not a \<open>PluginlibException\<close>.
\<close>

theorem serviceLoad_mismatch_result:
  assumes mismatch: "length (remap_source_args req) \<noteq> length (remap_target_args req)"
  shows "serviceLoad resolve ros req s =
           (case make_bond ros req
                   (ROS_ERROR ''Bad remapppings provided, target and source of different length'' s) of
              (bond, s2) \<Rightarrow>
                (case load (req_name req) (req_type req) [] (req_my_argv req) bond s2 of
                   (Inl e, s3) \<Rightarrow> (Inl e, s3)
                 | (Inr success, s3) \<Rightarrow>
                     (Inr success, case bond of None \<Rightarrow> s3 | Some b \<Rightarrow> emit (BondStart b) s3)))
         \<and> (fst (serviceLoad resolve ros req s) = Inr True \<longleftrightarrow>
              map_count (req_name req) (nodelets s) = 0
              \<and> (\<exists>p. createClassInstance (loader s) (req_type req) = Inr (Some p)
                      \<and> init_throws p = None))
         \<and> (fst (serviceLoad resolve ros req s) = Inr False \<longleftrightarrow>
              map_count (req_name req) (nodelets s) > 0
              \<or> (\<exists>what. createClassInstance (loader s) (req_type req)
                           = Inl (PluginlibException what))
              \<or> createClassInstance (loader s) (req_type req) = Inr None
              \<or> (\<exists>p what. createClassInstance (loader s) (req_type req) = Inr (Some p)
                    \<and> init_throws p = Some (PluginlibException what)))
         \<and> (\<forall>e. fst (serviceLoad resolve ros req s) = Inl e \<longleftrightarrow>
              map_count (req_name req) (nodelets s) = 0
              \<and> (\<forall>what. e \<noteq> PluginlibException what)
              \<and> (createClassInstance (loader s) (req_type req) = Inl e
                  \<or> (\<exists>p. createClassInstance (loader s) (req_type req) = Inr (Some p)
                        \<and> init_throws p = Some e)))
         \<and> take 1 (emitted s (snd (serviceLoad resolve ros req s))) =
             [Log ERROR ''Bad remapppings provided, target and source of different length'']"
proof -
  note result = serviceLoad_mismatch_fst [OF mismatch, of resolve ros s]
  from serviceLoad_mismatch_events [OF mismatch, of s resolve ros]
  have logged: "take 1 (emitted s (snd (serviceLoad resolve ros req s))) =
      [Log ERROR ''Bad remapppings provided, target and source of different length'']"
    by auto
  have true: "fst (serviceLoad resolve ros req s) = Inr True \<longleftrightarrow>
              map_count (req_name req) (nodelets s) = 0
              \<and> (\<exists>p. createClassInstance (loader s) (req_type req) = Inr (Some p)
                      \<and> init_throws p = None)"
    unfolding result by (rule load_True_iff)
  have false: "fst (serviceLoad resolve ros req s) = Inr False \<longleftrightarrow>
              map_count (req_name req) (nodelets s) > 0
              \<or> (\<exists>what. createClassInstance (loader s) (req_type req)
                           = Inl (PluginlibException what))
              \<or> createClassInstance (loader s) (req_type req) = Inr None
              \<or> (\<exists>p what. createClassInstance (loader s) (req_type req) = Inr (Some p)
                    \<and> init_throws p = Some (PluginlibException what))"
    unfolding result by (rule load_False_iff)
  have thrown: "\<forall>e. fst (serviceLoad resolve ros req s) = Inl e \<longleftrightarrow>
              map_count (req_name req) (nodelets s) = 0
              \<and> (\<forall>what. e \<noteq> PluginlibException what)
              \<and> (createClassInstance (loader s) (req_type req) = Inl e
                  \<or> (\<exists>p. createClassInstance (loader s) (req_type req) = Inr (Some p)
                        \<and> init_throws p = Some e))"
    unfolding result by (intro allI load_Inl_iff)
  from serviceLoad_mismatch_eq [OF mismatch, of resolve ros s] true false thrown logged
  show ?thesis
    by blast
qed

theorem serviceLoad_mismatch_result_witness:
  "length (remap_source_args mismatched_request) \<noteq> length (remap_target_args mismatched_request)
   \<and> length (remap_source_args crashing_request) \<noteq> length (remap_target_args crashing_request)
   \<and> fst (serviceLoad example_resolve example_ros mismatched_request fresh_loader) = Inr True
   \<and> fst (serviceLoad example_resolve example_ros mismatched_request cam_loader) = Inr False
   \<and> fst (serviceLoad example_resolve example_ros crashing_request fresh_loader)
       = Inl OtherException"
proof -
  note fresh = serviceLoad_mismatch_result
    [OF mismatched, of example_resolve example_ros fresh_loader]
  note taken = serviceLoad_mismatch_result
    [OF mismatched, of example_resolve example_ros cam_loader]
  note crash = serviceLoad_mismatch_result
    [OF crashing_mismatched, of example_resolve example_ros fresh_loader]
  have free: "map_count ''cam'' (nodelets fresh_loader) = 0"
    by (simp add: fresh_loader_eq map_count_def)
  have built: "createClassInstance (loader fresh_loader) ''DriverType'' = Inr (Some good_nodelet)"
    "init_throws good_nodelet = None"
    by (simp_all add: fresh_loader_eq createClassInstance_def example_factory_def good_nodelet_def)
  have crashes: "createClassInstance (loader fresh_loader) ''CrashingInit''
      = Inr (Some crashing_nodelet)" "init_throws crashing_nodelet = Some OtherException"
    by (simp_all add: fresh_loader_eq createClassInstance_def example_factory_def
        crashing_nodelet_def)
  have present: "map_count ''cam'' (nodelets cam_loader) > 0"
    by (simp add: cam_loader_eq map_count_def)
  from fresh [THEN conjunct2, THEN conjunct1] free built
  have a: "fst (serviceLoad example_resolve example_ros mismatched_request fresh_loader) = Inr True"
    by (simp add: mismatched_request_def)
  from taken [THEN conjunct2, THEN conjunct2, THEN conjunct1] present
  have b: "fst (serviceLoad example_resolve example_ros mismatched_request cam_loader) = Inr False"
    by (simp add: mismatched_request_def)
  from crash [THEN conjunct2, THEN conjunct2, THEN conjunct2, THEN conjunct1] free crashes
  have c: "fst (serviceLoad example_resolve example_ros crashing_request fresh_loader)
       = Inl OtherException"
    by (simp add: crashing_request_def mismatched_request_def)
  from mismatched crashing_mismatched a b c show ?thesis
    by blast
qed

text \<open>
  C4. When the two remapping lists differ in length, \<open>serviceLoad\<close> goes on to call
  \<open>Loader::load\<close>, with the empty remapping table; and when that call reaches the nodelet's
  \<open>init\<close> (the name is free and the factory builds a nodelet), \<open>init\<close> is called once, with
  the empty table.
\<close>

theorem serviceLoad_mismatch_loads_with_empty_map:
  assumes mismatch: "length (remap_source_args req) \<noteq> length (remap_target_args req)"
  shows "serviceLoad resolve ros req s =
           (case make_bond ros req
                   (ROS_ERROR ''Bad remapppings provided, target and source of different length'' s) of
              (bond, s2) \<Rightarrow>
                (case load (req_name req) (req_type req) [] (req_my_argv req) bond s2 of
                   (Inl e, s3) \<Rightarrow> (Inl e, s3)
                 | (Inr success, s3) \<Rightarrow>
                     (Inr success, case bond of None \<Rightarrow> s3 | Some b \<Rightarrow> emit (BondStart b) s3)))
         \<and> init_calls (emitted s (snd (serviceLoad resolve ros req s))) =
             (if map_count (req_name req) (nodelets s) = 0
                 \<and> (\<exists>p. createClassInstance (loader s) (req_type req) = Inr (Some p))
              then [(req_name req, [], req_my_argv req, fst (make_bond ros req s))] else [])"
proof -
  from serviceLoad_mismatch_events [OF mismatch, of s resolve ros]
  have "init_calls (emitted s (snd (serviceLoad resolve ros req s))) =
             (if map_count (req_name req) (nodelets s) = 0
                 \<and> (\<exists>p. createClassInstance (loader s) (req_type req) = Inr (Some p))
              then [(req_name req, [], req_my_argv req, fst (make_bond ros req s))] else [])"
    by auto
  with serviceLoad_mismatch_eq [OF mismatch, of resolve ros s] show ?thesis
    by blast
qed

theorem serviceLoad_mismatch_loads_witness:
  "length (remap_source_args mismatched_request) \<noteq> length (remap_target_args mismatched_request)
   \<and> fst (serviceLoad example_resolve example_ros mismatched_request fresh_loader) = Inr True
   \<and> listLoadedNodelets (snd (serviceLoad example_resolve example_ros mismatched_request fresh_loader))
       = [''cam'']
   \<and> init_calls (emitted fresh_loader
        (snd (serviceLoad example_resolve example_ros mismatched_request fresh_loader))) =
       [(''cam'', [], [], None)]"
proof -
  note inst = serviceLoad_mismatch_loads_with_empty_map
    [OF mismatched, of example_resolve example_ros fresh_loader]
  have free: "map_count ''cam'' (nodelets fresh_loader) = 0"
    by (simp add: fresh_loader_eq map_count_def)
  have made: "createClassInstance (loader fresh_loader) ''DriverType'' = Inr (Some good_nodelet)"
    by (simp add: fresh_loader_eq createClassInstance_def example_factory_def)
  have no_bond: "fst (make_bond example_ros mismatched_request fresh_loader) = None"
    by (simp add: make_bond_def mismatched_request_def)
  from inst [THEN conjunct2] have "init_calls (emitted fresh_loader
        (snd (serviceLoad example_resolve example_ros mismatched_request fresh_loader))) =
       [(''cam'', [], [], None)]"
    using free made no_bond by (simp add: mismatched_request_def)
  moreover have "fst (serviceLoad example_resolve example_ros mismatched_request fresh_loader) = Inr True"
    and "listLoadedNodelets (snd (serviceLoad example_resolve example_ros mismatched_request fresh_loader))
       = [''cam'']"
    by (simp_all add: serviceLoad_def build_map_def make_bond_def mismatched_request_def
      fresh_loader_eq load_def load_try_def map_count_def createClassInstance_def
      example_factory_def good_nodelet_def log_defs Let_def listLoadedNodelets_keys map_keys_def)
  ultimately show ?thesis
    using mismatched by blast
qed

subsection \<open>Loading under a name that is taken\<close>

text \<open>
  C5. A \<open>load\<close> under a name that is in the map returns \<open>false\<close>, writes an error and
  changes nothing else: the map is the same. After a \<open>load\<close> that returned \<open>true\<close>, the next
  \<open>load\<close> under that name returns \<open>false\<close>, whatever its other arguments. And when threads
  call \<open>load\<close> at the same time, each taking \<open>lock_\<close> first, then in whatever order their
  steps are taken no two of them with the same name return \<open>true\<close>.
\<close>

theorem load_taken_name_fails:
  "(map_count name (nodelets s) > 0 \<longrightarrow>
      load name type remappings my_argv bond s =
        (Inr False,
         s\<lparr>trace := trace s @ [Log ERROR (''Cannot load nodelet '' @ c_str name
                                 @ '' for one exists with that name already'')]\<rparr>)
      \<and> nodelets (snd (load name type remappings my_argv bond s)) = nodelets s)
   \<and> (fst (load name type remappings my_argv bond s) = Inr True \<longrightarrow>
        fst (load name type' remappings' my_argv' bond'
               (snd (load name type remappings my_argv bond s))) = Inr False)
   \<and> (t \<noteq> t' \<and> call_name (calls t) = call_name (calls t')
        \<and> pcs (schedule calls ts (start s)) t = Returned (Inr True) \<longrightarrow>
        pcs (schedule calls ts (start s)) t' \<noteq> Returned (Inr True))"
proof (intro conjI impI)
  assume "map_count name (nodelets s) > 0"
  then show "load name type remappings my_argv bond s =
        (Inr False,
         s\<lparr>trace := trace s @ [Log ERROR (''Cannot load nodelet '' @ c_str name
                                 @ '' for one exists with that name already'')]\<rparr>)"
    by (simp add: load_def load_exists_def log_defs)
  then show "nodelets (snd (load name type remappings my_argv bond s)) = nodelets s"
    by simp
next
  let ?s1 = "snd (load name type remappings my_argv bond s)"
  assume "fst (load name type remappings my_argv bond s) = Inr True"
  from load_True_nodelets [OF this] obtain p
    where "nodelets ?s1 = map_assign name p (nodelets s)" ..
  then have "map_count name (nodelets ?s1) > 0"
    by (simp add: map_count_def map_find_assign_same)
  then show "fst (load name type' remappings' my_argv' bond' ?s1) = Inr False"
    by (simp add: load_def load_exists_def)
next
  assume two: "t \<noteq> t' \<and> call_name (calls t) = call_name (calls t')
        \<and> pcs (schedule calls ts (start s)) t = Returned (Inr True)"
  have "lock_inv calls (schedule calls ts (start s))"
    using lock_inv_start by (rule lock_inv_schedule)
  with two show "pcs (schedule calls ts (start s)) t' \<noteq> Returned (Inr True)"
    unfolding lock_inv_def by blast
qed

theorem load_taken_name_fails_witness:
  "map_count ''cam'' (nodelets cam_loader) > 0
   \<and> load ''cam'' ''DriverType'' [] [] None cam_loader =
       (Inr False,
        cam_loader\<lparr>trace := trace cam_loader
           @ [Log ERROR ''Cannot load nodelet cam for one exists with that name already'']\<rparr>)
   \<and> fst (load ''cam'' ''DriverType'' [] [] None fresh_loader) = Inr True
   \<and> fst (load ''cam'' ''NullType'' [] [] None
            (snd (load ''cam'' ''DriverType'' [] [] None fresh_loader))) = Inr False
   \<and> call_name (two_cam_calls 0) = call_name (two_cam_calls 1)
   \<and> pcs (schedule two_cam_calls [0, 1, 0, 1, 0, 1, 1] (start fresh_loader)) 0 = Returned (Inr True)
   \<and> pcs (schedule two_cam_calls [0, 1, 0, 1, 0, 1, 1] (start fresh_loader)) 1 \<noteq> Returned (Inr True)
   \<and> pcs (schedule two_cam_calls [0, 1, 0, 1, 0, 1, 1] (start fresh_loader)) 1 = Returned (Inr False)"
proof -
  have taken: "map_count ''cam'' (nodelets cam_loader) > 0"
    by (simp add: cam_loader_eq map_count_def)
  have msg: "c_str ''cam'' = ''cam''"
    by (simp add: c_str_def)
  have same: "call_name (two_cam_calls 0) = call_name (two_cam_calls 1)"
    by (simp add: two_cam_calls_def)
  have first: "pcs (schedule two_cam_calls [0, 1, 0, 1, 0, 1, 1] (start fresh_loader)) 0
      = Returned (Inr True)"
    by (rule two_cam_schedule)
  from load_taken_name_fails [where name = "''cam''" and s = cam_loader and type = "''DriverType''"
      and remappings = "[]" and my_argv = "[]" and bond = None] taken
  have a: "load ''cam'' ''DriverType'' [] [] None cam_loader =
       (Inr False,
        cam_loader\<lparr>trace := trace cam_loader
           @ [Log ERROR ''Cannot load nodelet cam for one exists with that name already'']\<rparr>)"
    by (simp add: msg)
  from load_taken_name_fails [where name = "''cam''" and s = fresh_loader and type = "''DriverType''"
      and remappings = "[]" and my_argv = "[]" and bond = None and type' = "''NullType''"
      and remappings' = "[]" and my_argv' = "[]" and bond' = None] cam_loaded
  have b: "fst (load ''cam'' ''NullType'' [] [] None
            (snd (load ''cam'' ''DriverType'' [] [] None fresh_loader))) = Inr False"
    by blast
  from load_taken_name_fails [where s = fresh_loader and t = 0 and t' = 1
      and calls = two_cam_calls and ts = "[0, 1, 0, 1, 0, 1, 1]"] same first
  have c: "pcs (schedule two_cam_calls [0, 1, 0, 1, 0, 1, 1] (start fresh_loader)) 1
      \<noteq> Returned (Inr True)"
    by simp
  from taken a cam_loaded b same first c two_cam_schedule(2) show ?thesis
    by blast
qed

end
